theory Spec2Isabelle
  imports
    Main
    "HOL-Library.Char_ord"
    "HOL-Library.List_Lexorder"
    "HOL-Library.AList"
    "HOL-Library.Multiset"
begin

section \<open>Strings\<close>

text \<open>
  A Go string is a sequence of bytes, here \<^typ>\<open>string\<close>; Go compares strings byte by
  byte, which is the lexicographic order on \<^typ>\<open>char list\<close>.

  \<open>strings.ToLower\<close> is modelled on ASCII: the letters \<open>A\<close> to \<open>Z\<close> get bit 5 set, every
  other byte is kept. (Go also lowers letters beyond ASCII; no proof below looks into
  \<open>ToLower\<close>, they hold for any function on strings.)
\<close>

fun lowerByte :: "char \<Rightarrow> char" where
  "lowerByte (Char b0 b1 b2 b3 b4 b5 b6 b7) =
     (if CHR ''A'' \<le> Char b0 b1 b2 b3 b4 b5 b6 b7 \<and> Char b0 b1 b2 b3 b4 b5 b6 b7 \<le> CHR ''Z''
      then Char b0 b1 b2 b3 b4 True b6 b7
      else Char b0 b1 b2 b3 b4 b5 b6 b7)"

definition ToLower :: "string \<Rightarrow> string" where
  "ToLower s = map lowerByte s"

text \<open>
  \<open>strings.Index(s, sep)\<close> and \<open>strings.Split(s, sep)\<close>, for a separator of one byte (the
  source calls them with \<open>"="\<close> and \<open>":"\<close> only). \<open>Index\<close> is \<open>-1\<close> when the byte does not
  occur.
\<close>

fun Index :: "string \<Rightarrow> char \<Rightarrow> int" where
  "Index [] sep = -1"
| "Index (c # cs) sep =
     (if c = sep then 0 else (let i = Index cs sep in if i < 0 then -1 else i + 1))"

fun Split :: "string \<Rightarrow> char \<Rightarrow> string list" where
  "Split [] sep = [[]]"
| "Split (c # cs) sep =
     (if c = sep then [] # Split cs sep
      else (case Split cs sep of [] \<Rightarrow> [[c]] | p # ps \<Rightarrow> (c # p) # ps))"

definition quote :: "string \<Rightarrow> string" where
  "quote s = [CHR 0x27] @ s @ [CHR 0x27]"

section \<open>Decoded YAML values\<close>

text \<open>
  What \<open>yaml.Unmarshal\<close> stores in an \<open>interface{}\<close>: a scalar, a \<open>[]interface{}\<close> or a
  \<open>map[string]interface{}\<close>. (Floating point scalars are left out.)

  A Go map has no order of its own, but every \<open>range\<close> over it yields its entries in some
  order, which the runtime chooses. A map is modelled by the list of its entries in the
  order in which \<open>range\<close> yields them; a statement about all lists of entries is a
  statement about every order the runtime may choose.
\<close>

datatype yval =
    YStr string
  | YInt int
  | YBool bool
  | YNull
  | YSeq "yval list"
  | YMap "(string \<times> yval) list"

section \<open>Package config\<close>

definition DefaultFieldOrder :: "string list" where
  "DefaultFieldOrder =
     [''container_name'', ''image'', ''build'',
      ''user'',
      ''environment'', ''env_file'',
      ''networks'', ''network_mode'', ''ports'', ''devices'',
      ''healthcheck'',
      ''restart'', ''cap_add'', ''privileged'', ''extra_hosts'',
      ''volumes'',
      ''labels'']"

record AlphabetizationRules =
  Environment :: bool
  Volumes :: bool
  Labels :: bool

record ServiceOverride =
  oFieldOrder :: "string list"

record config =
  cFieldOrder :: "string list"
  Alphabetization :: AlphabetizationRules
  Strict :: bool
  Exclude :: "string list"
  ServiceOverrides :: "string \<rightharpoonup> ServiceOverride"

definition NewDefaultConfig :: config where
  "NewDefaultConfig =
     \<lparr> cFieldOrder = DefaultFieldOrder,
       Alphabetization = \<lparr> Environment = True, Volumes = True, Labels = True \<rparr>,
       Strict = False,
       Exclude = [],
       ServiceOverrides = Map.empty \<rparr>"

definition GetFieldOrder :: "config \<Rightarrow> string \<Rightarrow> string list" where
  "GetFieldOrder c serviceName =
     (case ServiceOverrides c serviceName of
        Some override \<Rightarrow>
          if length (oFieldOrder override) > 0 then oFieldOrder override else cFieldOrder c
      | None \<Rightarrow> cFieldOrder c)"

definition ShouldAlphabetize :: "config \<Rightarrow> string \<Rightarrow> bool" where
  "ShouldAlphabetize c field =
     (if field = ''environment'' then Environment (Alphabetization c)
      else if field = ''volumes'' then Volumes (Alphabetization c)
      else if field = ''labels'' then Labels (Alphabetization c)
      else False)"

section \<open>Package parser: services\<close>

text \<open>
  \<open>parser.Service\<close>. \<open>Config\<close> is a Go map that the validator only looks keys up in, so it
  is a map here; \<open>FieldOrder\<close> is the order of the fields in the file.
\<close>

record Service =
  Name :: string
  Config :: "string \<rightharpoonup> yval"
  FieldOrder :: "string list"
  Line :: int
  Column :: int

subsection \<open>GetServices\<close>

text \<open>
  The part of the syntax tree of \<open>goccy/go-yaml\<close> that \<open>GetServices\<close> reads: a key with its
  text and the position of its token, a mapping node with its key/value pairs in file
  order, and every other kind of node. A document pointer can be nil, and so can its body.
  \<open>GetServices\<close> has the services in a Go map, which it only stores into: a map here.

  The value of a field is decoded by the library, \<open>yaml.Unmarshal\<close> on the text of the
  node, with the text itself as the result when that fails: the parameter \<open>decode\<close>.
\<close>

record key =
  kString :: string
  kLine :: int
  kColumn :: int

datatype node =
    MappingNode "(key \<times> node) list"
  | OtherNode string

datatype document = NilDocument | Document "node option"

record ComposeFile =
  Path :: string
  Documents :: "document list"

text \<open>The loop that looks for the key \<open>services\<close> with a mapping as its value.\<close>

fun findServicesNode :: "(key \<times> node) list \<Rightarrow> (key \<times> node) list option" where
  "findServicesNode [] = None"
| "findServicesNode ((k, v) # vals) =
     (if kString k = ''services''
      then (case v of MappingNode svcMap \<Rightarrow> Some svcMap | OtherNode _ \<Rightarrow> findServicesNode vals)
      else findServicesNode vals)"

text \<open>The loop over the fields of one service: \<open>fieldOrder\<close> and \<open>svcConfig\<close>.\<close>

fun readFields :: "(node \<Rightarrow> yval) \<Rightarrow> (key \<times> node) list \<Rightarrow> string list \<times> (string \<rightharpoonup> yval)
    \<Rightarrow> string list \<times> (string \<rightharpoonup> yval)" where
  "readFields decode [] acc = acc"
| "readFields decode ((k, v) # fieldVals) (fieldOrder, svcConfig) =
     readFields decode fieldVals (fieldOrder @ [kString k], svcConfig(kString k \<mapsto> decode v))"

text \<open>The loop \<open>for _, svcVal := range servicesNode.Values\<close>.\<close>

fun addServices :: "(node \<Rightarrow> yval) \<Rightarrow> (key \<times> node) list \<Rightarrow> (string \<rightharpoonup> Service)
    \<Rightarrow> (string \<rightharpoonup> Service)" where
  "addServices decode [] services = services"
| "addServices decode ((k, v) # svcVals) services =
     (case v of
        MappingNode svcMapping \<Rightarrow>
          (case readFields decode svcMapping ([], Map.empty) of
             (fieldOrder, svcConfig) \<Rightarrow>
               addServices decode svcVals
                 (services(kString k \<mapsto>
                    \<lparr> Name = kString k, Config = svcConfig, FieldOrder = fieldOrder,
                      Line = kLine k, Column = kColumn k \<rparr>)))
      | OtherNode _ \<Rightarrow> addServices decode svcVals services)"

text \<open>The loop \<open>for _, doc := range cf.Documents\<close>.\<close>

fun addDocuments :: "(node \<Rightarrow> yval) \<Rightarrow> document list \<Rightarrow> (string \<rightharpoonup> Service)
    \<Rightarrow> (string \<rightharpoonup> Service)" where
  "addDocuments decode [] services = services"
| "addDocuments decode (doc # docs) services =
     (case doc of
        Document (Some (MappingNode mapping)) \<Rightarrow>
          (case findServicesNode mapping of
             None \<Rightarrow> addDocuments decode docs services
           | Some servicesNode \<Rightarrow>
               addDocuments decode docs (addServices decode servicesNode services))
      | _ \<Rightarrow> addDocuments decode docs services)"

definition GetServices :: "(node \<Rightarrow> yval) \<Rightarrow> ComposeFile \<Rightarrow> (string \<rightharpoonup> Service)" where
  "GetServices decode cf = addDocuments decode (Documents cf) Map.empty"

text \<open>The services that one document adds: the loop of \<open>GetServices\<close> on that document alone.\<close>

definition documentServices :: "(node \<Rightarrow> yval) \<Rightarrow> document \<Rightarrow> (string \<rightharpoonup> Service)" where
  "documentServices decode d = addDocuments decode [d] Map.empty"

section \<open>Package validator\<close>

text \<open>
  The fields of \<open>Violation\<close> have a \<open>v\<close> in front of their names, and \<open>FieldOrder\<close> of
  \<open>Config\<close> a \<open>c\<close>: a record field is a constant, and \<open>Service\<close> has fields of the same
  names.
\<close>

record Violation =
  vType :: string
  vService :: string
  vField :: string
  vMessage :: string
  vExpected :: string
  vActual :: string
  vLine :: int
  vColumn :: int

fun isInFieldOrder :: "string \<Rightarrow> string list \<Rightarrow> bool" where
  "isInFieldOrder field [] = False"
| "isInFieldOrder field (f # fieldOrder) =
     (if f = field then True else isInFieldOrder field fieldOrder)"

subsection \<open>validateFieldOrder\<close>

definition actualFields :: "Service \<Rightarrow> string list \<Rightarrow> string list" where
  "actualFields service fieldOrder =
     filter (\<lambda>field. isInFieldOrder field fieldOrder) (FieldOrder service)"

definition expectedFields :: "Service \<Rightarrow> string list \<Rightarrow> string list" where
  "expectedFields service fieldOrder =
     filter (\<lambda>field. Config service field \<noteq> None) fieldOrder"

definition outOfOrder :: "string \<Rightarrow> Service \<Rightarrow> string \<Rightarrow> string \<Rightarrow> Violation" where
  "outOfOrder serviceName service actual expected =
     \<lparr> vType = ''order'', vService = serviceName, vField = actual,
       vMessage = ''field '' @ quote actual @ '' is out of order'',
       vExpected = expected, vActual = actual,
       vLine = Line service, vColumn = Column service \<rparr>"

definition notAllowed :: "string \<Rightarrow> string \<Rightarrow> Violation" where
  "notAllowed serviceName field =
     \<lparr> vType = ''order'', vService = serviceName, vField = field,
       vMessage = ''field '' @ quote field @ '' is not allowed in strict mode'',
       vExpected = [], vActual = [], vLine = 0, vColumn = 0 \<rparr>"

text \<open>The loop \<open>for i, actual := range actualFields\<close>, from index \<open>i\<close> on.\<close>

fun checkOrder :: "string \<Rightarrow> Service \<Rightarrow> string list \<Rightarrow> nat \<Rightarrow> string list \<Rightarrow> Violation list" where
  "checkOrder serviceName service expected i [] = []"
| "checkOrder serviceName service expected i (actual # rest) =
     (if i < length expected \<and> actual \<noteq> expected ! i
      then [outOfOrder serviceName service actual (expected ! i)] else [])
     @ checkOrder serviceName service expected (Suc i) rest"

text \<open>The loop \<open>for _, field := range service.FieldOrder\<close> of strict mode.\<close>

fun checkStrict :: "string \<Rightarrow> string list \<Rightarrow> string list \<Rightarrow> Violation list" where
  "checkStrict serviceName fieldOrder [] = []"
| "checkStrict serviceName fieldOrder (field # rest) =
     (if \<not> isInFieldOrder field fieldOrder then [notAllowed serviceName field] else [])
     @ checkStrict serviceName fieldOrder rest"

definition validateFieldOrder :: "string \<Rightarrow> Service \<Rightarrow> string list \<Rightarrow> config \<Rightarrow> Violation list" where
  "validateFieldOrder serviceName service fieldOrder cfg =
     checkOrder serviceName service (expectedFields service fieldOrder) 0
       (actualFields service fieldOrder)
     @ (if Strict cfg then checkStrict serviceName fieldOrder (FieldOrder service) else [])"

subsection \<open>Sort keys\<close>

text \<open>
  \<open>extractEnvKey\<close>, \<open>extractVolumeKey\<close> and \<open>extractLabelKey\<close>; package fixer repeats the
  three functions word for word. For an entry that is a map, \<open>for k := range v\<close> returns
  the first key that \<open>range\<close> yields.
\<close>

definition extractEnvKey :: "yval \<Rightarrow> string" where
  "extractEnvKey item =
     (case item of
        YStr v \<Rightarrow> (let idx = Index v CHR ''='' in if idx > 0 then take (nat idx) v else v)
      | YMap v \<Rightarrow> (case v of [] \<Rightarrow> [] | (k, _) # _ \<Rightarrow> k)
      | _ \<Rightarrow> [])"

definition extractVolumeKey :: "yval \<Rightarrow> string" where
  "extractVolumeKey item =
     (case item of
        YStr v \<Rightarrow> (let parts = Split v CHR '':'' in if length parts > 0 then parts ! 0 else v)
      | _ \<Rightarrow> [])"

definition extractLabelKey :: "yval \<Rightarrow> string" where
  "extractLabelKey item =
     (case item of
        YStr v \<Rightarrow> (let idx = Index v CHR ''='' in if idx > 0 then take (nat idx) v else v)
      | YMap v \<Rightarrow> (case v of [] \<Rightarrow> [] | (k, _) # _ \<Rightarrow> k)
      | _ \<Rightarrow> [])"

subsection \<open>isAlphabetized\<close>

text \<open>
  The sort written out in \<open>isAlphabetized\<close> and \<open>isMapAlphabetized\<close>:
  \<^verbatim>\<open>
  for i := 0; i < len(sortedKeys)-1; i++ {
      for j := i + 1; j < len(sortedKeys); j++ {
          if strings.ToLower(sortedKeys[i]) > strings.ToLower(sortedKeys[j]) {
              sortedKeys[i], sortedKeys[j] = sortedKeys[j], sortedKeys[i]
  \<close>
  \<open>swapPass cur rest\<close> is the inner loop for one \<open>i\<close>: \<open>cur\<close> is \<open>sortedKeys[i]\<close>, \<open>rest\<close>
  the slice behind it, which \<open>j\<close> walks through; a swap puts \<open>cur\<close> at \<open>j\<close> and goes on with
  the key that was there. It returns the final \<open>sortedKeys[i]\<close> and the slice behind it.
  \<open>sortKeys\<close> is the outer loop, which goes on behind \<open>i\<close>; at the last position the
  inner loop has nothing to walk through.
\<close>

fun swapPass :: "string \<Rightarrow> string list \<Rightarrow> string \<times> string list" where
  "swapPass cur [] = (cur, [])"
| "swapPass cur (k # ks) =
     (if ToLower cur > ToLower k
      then (case swapPass k ks of (c, rest) \<Rightarrow> (c, cur # rest))
      else (case swapPass cur ks of (c, rest) \<Rightarrow> (c, k # rest)))"

function sortKeys :: "string list \<Rightarrow> string list" where
  "sortKeys [] = []"
| "sortKeys (k # ks) = (case swapPass k ks of (c, rest) \<Rightarrow> c # sortKeys rest)"
  by pat_completeness auto
termination
proof (relation "measure length")
  show "wf (measure length)" by simp
next
  fix k :: string and ks :: "string list" and c rest
  assume cr: "(c, rest) = swapPass k ks"
  have "swapPass cur xs = (d, ys) \<Longrightarrow> length ys = length xs" for cur xs d ys
    by (induction xs arbitrary: cur d ys) (auto split: prod.splits if_splits)
  from this [of k ks c rest] cr have "length rest = length ks"
    by simp
  then show "(rest, k # ks) \<in> measure length" by simp
qed

text \<open>
  The last loop of \<open>isAlphabetized\<close> compares \<open>keys\<close> and \<open>sortedKeys\<close>, two slices of the
  same length, position by position: it returns true when they are equal.
\<close>

definition isAlphabetized :: "yval list \<Rightarrow> (yval \<Rightarrow> string) \<Rightarrow> bool" where
  "isAlphabetized items keyExtractor =
     (if length items < 2 then True
      else (let keys = map keyExtractor items; sortedKeys = sortKeys keys
            in keys = sortedKeys))"

definition isMapAlphabetized :: "(string \<times> yval) list \<Rightarrow> bool" where
  "isMapAlphabetized m =
     (if length m < 2 then True
      else (let keys = map fst m; sortedKeys = sortKeys keys
            in keys = sortedKeys))"

subsection \<open>validateAlphabetization\<close>

definition notAlphabetized :: "string \<Rightarrow> Service \<Rightarrow> string \<Rightarrow> string \<Rightarrow> Violation" where
  "notAlphabetized serviceName service field message =
     \<lparr> vType = ''alphabetization'', vService = serviceName, vField = field,
       vMessage = message, vExpected = [], vActual = [],
       vLine = Line service, vColumn = 0 \<rparr>"

definition validateAlphabetization :: "string \<Rightarrow> Service \<Rightarrow> config \<Rightarrow> Violation list" where
  "validateAlphabetization serviceName service cfg =
     (if ShouldAlphabetize cfg ''environment'' then
        (case Config service ''environment'' of
           Some (YSeq env) \<Rightarrow>
             if \<not> isAlphabetized env extractEnvKey
             then [notAlphabetized serviceName service ''environment''
                     ''environment variables are not alphabetized'']
             else []
         | Some (YMap envMap) \<Rightarrow>
             if \<not> isMapAlphabetized envMap
             then [notAlphabetized serviceName service ''environment''
                     ''environment variables are not alphabetized'']
             else []
         | _ \<Rightarrow> [])
      else [])
     @ (if ShouldAlphabetize cfg ''volumes'' then
        (case Config service ''volumes'' of
           Some (YSeq vols) \<Rightarrow>
             if \<not> isAlphabetized vols extractVolumeKey
             then [notAlphabetized serviceName service ''volumes''
                     ''volumes are not alphabetized by source path'']
             else []
         | _ \<Rightarrow> [])
      else [])
     @ (if ShouldAlphabetize cfg ''labels'' then
        (case Config service ''labels'' of
           Some (YSeq labels) \<Rightarrow>
             if \<not> isAlphabetized labels extractLabelKey
             then [notAlphabetized serviceName service ''labels''
                     ''labels are not alphabetized'']
             else []
         | Some (YMap labelMap) \<Rightarrow>
             if \<not> isMapAlphabetized labelMap
             then [notAlphabetized serviceName service ''labels''
                     ''labels are not alphabetized'']
             else []
         | _ \<Rightarrow> [])
      else [])"

subsection \<open>Validate\<close>

text \<open>
  A Go slice is nil or holds elements. \<open>make([]Violation, 0)\<close> is an empty slice that is
  not nil, and \<open>append\<close> returns nil only for a nil slice and nothing to add.
\<close>

datatype 'a slice = NilSlice | Slice "'a list"

fun elems :: "'a slice \<Rightarrow> 'a list" where
  "elems NilSlice = []"
| "elems (Slice xs) = xs"

fun goAppend :: "'a slice \<Rightarrow> 'a list \<Rightarrow> 'a slice" where
  "goAppend NilSlice xs = (if xs = [] then NilSlice else Slice xs)"
| "goAppend (Slice ys) xs = Slice (ys @ xs)"

record ValidationResult =
  File :: string
  Valid :: bool
  Violations :: "Violation slice"

text \<open>
  The loop \<open>for serviceName, service := range services\<close> of \<open>Validate\<close>. The names come in
  the order in which \<open>range\<close> yields them, which the caller of the model chooses: the
  argument \<open>names\<close>.
\<close>

fun validateServices :: "config \<Rightarrow> (string \<rightharpoonup> Service) \<Rightarrow> string list \<Rightarrow> ValidationResult
    \<Rightarrow> ValidationResult" where
  "validateServices cfg services [] result = result"
| "validateServices cfg services (serviceName # names) result =
     (case services serviceName of
        None \<Rightarrow> validateServices cfg services names result
      | Some service \<Rightarrow>
          (let fieldOrder = GetFieldOrder cfg serviceName;
               orderViolations = validateFieldOrder serviceName service fieldOrder cfg;
               result = result\<lparr>Violations := goAppend (Violations result) orderViolations\<rparr>;
               alphaViolations = validateAlphabetization serviceName service cfg;
               result = result\<lparr>Violations := goAppend (Violations result) alphaViolations\<rparr>
           in validateServices cfg services names result))"

text \<open>\<open>Validate\<close> returns its result with a nil error on every path.\<close>

definition Validate :: "(node \<Rightarrow> yval) \<Rightarrow> string list \<Rightarrow> ComposeFile \<Rightarrow> config \<Rightarrow> ValidationResult" where
  "Validate decode names file cfg =
     (let result = \<lparr> File = Path file, Valid = True, Violations = Slice [] \<rparr>;
          services = GetServices decode file;
          result = validateServices cfg services names result
      in if length (elems (Violations result)) > 0 then result\<lparr>Valid := False\<rparr> else result)"

section \<open>Package fixer\<close>

subsection \<open>Comparing and sorting entries\<close>

text \<open>
  \<open>v[i] != sorted[i]\<close> compares two \<open>interface{}\<close> values. Values of different dynamic
  types are unequal; two slices, or two maps, cannot be compared, and the program panics
  (\<open>None\<close>).
\<close>

definition ifaceNeq :: "yval \<Rightarrow> yval \<Rightarrow> bool option" where
  "ifaceNeq a b =
     (case (a, b) of
        (YSeq _, YSeq _) \<Rightarrow> None
      | (YMap _, YMap _) \<Rightarrow> None
      | _ \<Rightarrow> Some (a \<noteq> b))"

text \<open>
  \<open>sort.Slice\<close> is Go's library sort, which is not stable. It is modelled by the
  insertion sort that the library runs on a slice of fewer than 12 elements:
  \<^verbatim>\<open>
  for i := a + 1; i < b; i++ {
      for j := i; j > a && less(data[j], data[j-1]); j-- {
          data.Swap(j, j-1)
  \<close>
  \<open>insertBack lt x front\<close> moves \<open>x\<close> down into the part in front of it, which is held
  with its last element first. The theorems below use three facts about the sort: its
  result is a permutation of the slice, is ordered, and is the slice itself when the slice
  is ordered already.
\<close>

fun insertBack :: "('a \<Rightarrow> 'a \<Rightarrow> bool) \<Rightarrow> 'a \<Rightarrow> 'a list \<Rightarrow> 'a list" where
  "insertBack lt x [] = [x]"
| "insertBack lt x (y # front) =
     (if lt x y then y # insertBack lt x front else x # y # front)"

definition sortSlice :: "('a \<Rightarrow> 'a \<Rightarrow> bool) \<Rightarrow> 'a list \<Rightarrow> 'a list" where
  "sortSlice lt xs = rev (foldl (\<lambda>front x. insertBack lt x front) [] xs)"

text \<open>The loop \<open>for i := range v\<close> that looks for a position where sorting changed \<open>v\<close>.\<close>

fun firstChange :: "yval list \<Rightarrow> yval list \<Rightarrow> bool option" where
  "firstChange [] sortedV = Some False"
| "firstChange (x # v) [] = None"
| "firstChange (x # v) (y # sortedV) =
     (case ifaceNeq x y of
        None \<Rightarrow> None
      | Some True \<Rightarrow> Some True
      | Some False \<Rightarrow> firstChange v sortedV)"

subsection \<open>alphabetizeField\<close>

text \<open>
  \<open>alphabetizeEnvironment\<close>, \<open>alphabetizeVolumes\<close> and \<open>alphabetizeLabels\<close> repeat one body
  for a slice, with their own key, and the first and the last one body for a map:
  \<open>alphabetizeSlice\<close> and \<open>alphabetizeKeys\<close>. The map that \<open>alphabetizeKeys\<close> builds is a
  new Go map, filled key by key (\<open>AList.update\<close> puts a new key behind the others).
\<close>

definition alphabetizeSlice :: "(yval \<Rightarrow> string) \<Rightarrow> yval list \<Rightarrow> (yval \<times> bool) option" where
  "alphabetizeSlice keyOf v =
     (if length v < 2 then Some (YSeq v, False)
      else (let sortedV = sortSlice (\<lambda>a b. ToLower (keyOf a) < ToLower (keyOf b)) v
            in case firstChange v sortedV of
                 None \<Rightarrow> None
               | Some True \<Rightarrow> Some (YSeq sortedV, True)
               | Some False \<Rightarrow> Some (YSeq v, False)))"

definition alphabetizeKeys :: "(string \<times> yval) list \<Rightarrow> yval \<times> bool" where
  "alphabetizeKeys v =
     (if length v < 2 then (YMap v, False)
      else (let keys = map fst v;
                sortedKeys = sortSlice (\<lambda>a b. ToLower a < ToLower b) keys
            in if keys = sortedKeys then (YMap v, False)
               else (YMap (foldl (\<lambda>ordered k.
                        AList.update k (case map_of v k of Some x \<Rightarrow> x | None \<Rightarrow> YNull) ordered)
                      [] sortedKeys), True)))"

definition alphabetizeEnvironment :: "yval \<Rightarrow> (yval \<times> bool) option" where
  "alphabetizeEnvironment value =
     (case value of
        YSeq v \<Rightarrow> alphabetizeSlice extractEnvKey v
      | YMap v \<Rightarrow> Some (alphabetizeKeys v)
      | _ \<Rightarrow> Some (value, False))"

definition alphabetizeVolumes :: "yval \<Rightarrow> (yval \<times> bool) option" where
  "alphabetizeVolumes value =
     (case value of
        YSeq v \<Rightarrow> alphabetizeSlice extractVolumeKey v
      | _ \<Rightarrow> Some (value, False))"

definition alphabetizeLabels :: "yval \<Rightarrow> (yval \<times> bool) option" where
  "alphabetizeLabels value =
     (case value of
        YSeq v \<Rightarrow> alphabetizeSlice extractLabelKey v
      | YMap v \<Rightarrow> Some (alphabetizeKeys v)
      | _ \<Rightarrow> Some (value, False))"

definition alphabetizeField :: "string \<Rightarrow> yval \<Rightarrow> config \<Rightarrow> (yval \<times> bool) option" where
  "alphabetizeField field value cfg =
     (if \<not> ShouldAlphabetize cfg field then Some (value, False)
      else if field = ''environment'' then alphabetizeEnvironment value
      else if field = ''volumes'' then alphabetizeVolumes value
      else if field = ''labels'' then alphabetizeLabels value
      else Some (value, False))"

subsection \<open>isFieldOrderCorrect\<close>

fun getFieldIndex :: "string \<Rightarrow> string list \<Rightarrow> int" where
  "getFieldIndex field [] = -1"
| "getFieldIndex field (f # fieldOrder) =
     (if f = field then 0
      else (let i = getFieldIndex field fieldOrder in if i < 0 then -1 else i + 1))"

text \<open>The loop \<open>for field := range svc\<close>, with \<open>lastIndex\<close>.\<close>

fun orderLoop :: "string list \<Rightarrow> string list \<Rightarrow> int \<Rightarrow> bool" where
  "orderLoop [] fieldOrder lastIndex = True"
| "orderLoop (field # rest) fieldOrder lastIndex =
     (let idx = getFieldIndex field fieldOrder
      in if idx \<ge> 0
         then (if idx < lastIndex then False else orderLoop rest fieldOrder idx)
         else orderLoop rest fieldOrder lastIndex)"

definition isFieldOrderCorrect :: "(string \<times> yval) list \<Rightarrow> string list \<Rightarrow> bool" where
  "isFieldOrderCorrect svc fieldOrder = orderLoop (map fst svc) fieldOrder (-1)"

subsection \<open>fixService\<close>

text \<open>
  \<open>fixService\<close> gets the service as a Go map \<open>svc\<close>, which \<open>yaml.Unmarshal\<close> built from the
  file: the order in which the file declares the fields is not part of it. Here \<open>svc\<close> is
  the list of the entries in the order in which \<open>range svc\<close> yields them; a Go map has
  every key once, which the theorems ask of \<open>svc\<close> as \<open>distinct (map fst svc)\<close>.

  The local variables of \<open>fixService\<close> are the state of its loops. \<open>ordered\<close> is a Go map
  too; its list has the fields in the order in which \<open>fixService\<close> stores them, which is
  the corrected sequence of the fields. \<open>ordered[field] = value\<close> is \<open>AList.update\<close> and
  \<open>delete(svc, field)\<close> is \<open>AList.delete\<close>.
\<close>

record fixState =
  s_changes :: "string list"
  s_fixed :: bool
  s_ordered :: "(string \<times> yval) list"
  s_svc :: "(string \<times> yval) list"

definition alphabetizedChange :: "string \<Rightarrow> string \<Rightarrow> string" where
  "alphabetizedChange name field = ''service '' @ quote name @ '': alphabetized '' @ quote field"

definition reorderedChange :: "string \<Rightarrow> string" where
  "reorderedChange name = ''service '' @ quote name @ '': reordered fields''"

text \<open>The loop \<open>for _, field := range fieldOrder\<close>.\<close>

fun fixKnown :: "string \<Rightarrow> config \<Rightarrow> string list \<Rightarrow> fixState \<Rightarrow> fixState option" where
  "fixKnown name cfg [] st = Some st"
| "fixKnown name cfg (field # fieldOrder) st =
     (case map_of (s_svc st) field of
        None \<Rightarrow> fixKnown name cfg fieldOrder st
      | Some value \<Rightarrow>
          (case alphabetizeField field value cfg of
             None \<Rightarrow> None
           | Some (alphabetizedValue, alphaFixed) \<Rightarrow>
               fixKnown name cfg fieldOrder
                 \<lparr> s_changes = (if alphaFixed
                                then s_changes st @ [alphabetizedChange name field]
                                else s_changes st),
                   s_fixed = (if alphaFixed then True else s_fixed st),
                   s_ordered = AList.update field alphabetizedValue (s_ordered st),
                   s_svc = AList.delete field (s_svc st) \<rparr>))"

text \<open>The loop \<open>for field, value := range svc\<close> over the fields that are left in \<open>svc\<close>.\<close>

fun fixRemaining :: "string \<Rightarrow> config \<Rightarrow> (string \<times> yval) list \<Rightarrow> fixState \<Rightarrow> fixState option" where
  "fixRemaining name cfg [] st = Some st"
| "fixRemaining name cfg ((field, value) # entries) st =
     (case alphabetizeField field value cfg of
        None \<Rightarrow> None
      | Some (alphabetizedValue, alphaFixed) \<Rightarrow>
          fixRemaining name cfg entries
            (st\<lparr> s_changes := (if alphaFixed
                                then s_changes st @ [alphabetizedChange name field]
                                else s_changes st),
                 s_fixed := (if alphaFixed then True else s_fixed st),
                 s_ordered := AList.update field alphabetizedValue (s_ordered st) \<rparr>))"

text \<open>The loop \<open>for field, value := range ordered\<close> that copies \<open>ordered\<close> back to \<open>svc\<close>.\<close>

fun copyBack :: "(string \<times> yval) list \<Rightarrow> (string \<times> yval) list \<Rightarrow> (string \<times> yval) list" where
  "copyBack [] svc = svc"
| "copyBack ((field, value) # ordered) svc = copyBack ordered (AList.update field value svc)"

text \<open>
  The result of \<open>fixService\<close>: the two values it returns, the sequence \<open>ordered\<close>, and the
  map \<open>svc\<close> as it leaves it to its caller. \<open>None\<close> is a panic.
\<close>

record serviceFix =
  svcFixed :: bool
  svcChanges :: "string list"
  svcOrdered :: "(string \<times> yval) list"
  svcMap :: "(string \<times> yval) list"

definition fixService :: "string \<Rightarrow> (string \<times> yval) list \<Rightarrow> string list \<Rightarrow> config \<Rightarrow> serviceFix option" where
  "fixService name svc fieldOrder cfg =
     (case fixKnown name cfg fieldOrder
             \<lparr> s_changes = [], s_fixed = False, s_ordered = [], s_svc = svc \<rparr> of
        None \<Rightarrow> None
      | Some st1 \<Rightarrow>
          (case fixRemaining name cfg (s_svc st1) st1 of
             None \<Rightarrow> None
           | Some st2 \<Rightarrow>
               (let st3 = (if \<not> isFieldOrderCorrect (s_svc st2) fieldOrder
                           then st2\<lparr> s_changes := s_changes st2 @ [reorderedChange name],
                                     s_fixed := True \<rparr>
                           else st2)
                in Some \<lparr> svcFixed = s_fixed st3, svcChanges = s_changes st3,
                          svcOrdered = s_ordered st3,
                          svcMap = copyBack (s_ordered st3) (s_svc st3) \<rparr>)))"

section \<open>Scenarios\<close>

text \<open>
  The services of the scenarios of the specification, as the tests of the repository
  build them (\<open>TestValidate_InvalidFieldOrder\<close>, \<open>TestValidate_StrictMode_ExtraField\<close>
  with its first two fields exchanged).
\<close>

definition webService :: Service where
  "webService =
     \<lparr> Name = ''web'',
       Config = [''image'' \<mapsto> YStr ''nginx:latest'', ''container_name'' \<mapsto> YStr ''web-server'',
                 ''environment'' \<mapsto> YSeq [YStr ''KEY=value'']],
       FieldOrder = [''image'', ''container_name'', ''environment''],
       Line = 1, Column = 1 \<rparr>"



text \<open>
  A file of two documents: the first has the services \<open>web\<close> and \<open>db\<close>, the second has
  \<open>web\<close> again. \<open>textOf\<close> stands for the decoder of the library on scalar nodes.
\<close>

definition textOf :: "node \<Rightarrow> yval" where
  "textOf n = (case n of OtherNode t \<Rightarrow> YStr t | MappingNode _ \<Rightarrow> YNull)"

definition keyAt :: "string \<Rightarrow> int \<Rightarrow> key" where
  "keyAt s l = \<lparr> kString = s, kLine = l, kColumn = 1 \<rparr>"

definition firstDocument :: document where
  "firstDocument =
     Document (Some (MappingNode
       [(keyAt ''services'' 1, MappingNode
          [(keyAt ''web'' 2, MappingNode [(keyAt ''image'' 3, OtherNode ''nginx'')]),
           (keyAt ''db'' 4, MappingNode [(keyAt ''image'' 5, OtherNode ''mysql'')])])]))"

definition secondDocument :: document where
  "secondDocument =
     Document (Some (MappingNode
       [(keyAt ''services'' 7, MappingNode
          [(keyAt ''web'' 8, MappingNode [(keyAt ''image'' 9, OtherNode ''caddy'')])])]))"

definition twoDocuments :: ComposeFile where
  "twoDocuments = \<lparr> Path = ''compose.yml'', Documents = [firstDocument, secondDocument] \<rparr>"

section \<open>Sorted entries\<close>

text \<open>
  The words of the specification for the alphabetization check: the entries are sorted by
  their key when a stable ascending sort by the lowered key (\<open>sort_key\<close> is one) returns
  them as they are. A field is unsorted when its value is a sequence of entries that are
  not sorted by their key, or, for \<open>environment\<close> and \<open>labels\<close> (\<open>mapForm\<close>), a mapping
  whose entries are not sorted by their key.
\<close>

definition sortedByKey :: "('a \<Rightarrow> string) \<Rightarrow> 'a list \<Rightarrow> bool" where
  "sortedByKey keyOf entries = (sort_key (\<lambda>e. ToLower (keyOf e)) entries = entries)"

definition unsorted :: "(yval \<Rightarrow> string) \<Rightarrow> bool \<Rightarrow> yval option \<Rightarrow> bool" where
  "unsorted keyOf mapForm value =
     (case value of
        Some (YSeq items) \<Rightarrow> \<not> sortedByKey keyOf items
      | Some (YMap m) \<Rightarrow> mapForm \<and> \<not> sortedByKey fst m
      | _ \<Rightarrow> False)"

section \<open>Vocabulary for the properties of the fixer\<close>

text \<open>
  A value is comparable when \<open>!=\<close> on it cannot panic: it is neither a slice nor a map.
  The entries of a value are comparable when the value is not a sequence, or a sequence of
  comparable values. A value is plain when in addition it is not a mapping of two or
  more entries: the fixer reads the keys of such a mapping in the order in which \<open>range\<close>
  yields them, which no later run need repeat. \<open>comparableFor\<close> and \<open>plainFor\<close> ask this
  of the values of the fields that the policy wants alphabetized.
\<close>

definition comparable :: "yval \<Rightarrow> bool" where
  "comparable v = (case v of YSeq _ \<Rightarrow> False | YMap _ \<Rightarrow> False | _ \<Rightarrow> True)"

definition comparableEntries :: "yval \<Rightarrow> bool" where
  "comparableEntries v = (case v of YSeq xs \<Rightarrow> list_all comparable xs | _ \<Rightarrow> True)"


definition comparableFor :: "config \<Rightarrow> (string \<times> yval) list \<Rightarrow> bool" where
  "comparableFor cfg svc =
     list_all (\<lambda>(k, v). ShouldAlphabetize cfg k \<longrightarrow> comparableEntries v) svc"


text \<open>
  What \<open>alphabetizeField\<close> returns for a field when it returns: the value and the flag.
  \<open>panics\<close> holds when it does not return for an entry of the list.
\<close>

definition fixedValue :: "config \<Rightarrow> string \<Rightarrow> yval \<Rightarrow> yval" where
  "fixedValue cfg k v = (case alphabetizeField k v cfg of Some (v', _) \<Rightarrow> v' | None \<Rightarrow> v)"

definition wasFixed :: "config \<Rightarrow> string \<Rightarrow> yval \<Rightarrow> bool" where
  "wasFixed cfg k v = (case alphabetizeField k v cfg of Some (_, b) \<Rightarrow> b | None \<Rightarrow> False)"

definition fixedEntry :: "config \<Rightarrow> string \<times> yval \<Rightarrow> string \<times> yval" where
  "fixedEntry cfg = (\<lambda>(k, v). (k, fixedValue cfg k v))"

definition entryChanges :: "string \<Rightarrow> config \<Rightarrow> (string \<times> yval) list \<Rightarrow> string list" where
  "entryChanges name cfg entries =
     map (\<lambda>(k, v). alphabetizedChange name k) (filter (\<lambda>(k, v). wasFixed cfg k v) entries)"

definition anyFixed :: "config \<Rightarrow> (string \<times> yval) list \<Rightarrow> bool" where
  "anyFixed cfg entries = list_ex (\<lambda>(k, v). wasFixed cfg k v) entries"

definition panics :: "config \<Rightarrow> (string \<times> yval) list \<Rightarrow> bool" where
  "panics cfg entries = list_ex (\<lambda>(k, v). alphabetizeField k v cfg = None) entries"



abbreviation (input) lowerLt :: "('a \<Rightarrow> string) \<Rightarrow> 'a \<Rightarrow> 'a \<Rightarrow> bool" where
  "lowerLt keyOf \<equiv> (\<lambda>a b. ToLower (keyOf a) < ToLower (keyOf b))"

text \<open>
  The service that declares the entries of a sequence in the order of the sequence, as
  \<open>GetServices\<close> reads it from a file with these fields.
\<close>

definition declared :: "string \<Rightarrow> (string \<times> yval) list \<Rightarrow> Service" where
  "declared name entries =
     \<lparr> Name = name, Config = map_of entries, FieldOrder = map fst entries, Line = 0, Column = 0 \<rparr>"

text \<open>
  The entries of \<open>svc\<close> in the order in which \<open>fixService\<close> takes them: \<open>knownEntries\<close> are
  the entries that its first loop finds, in the order of \<open>fieldOrder\<close>; the entries of the
  other fields follow in the order in which they are in \<open>svc\<close>.
\<close>

fun knownEntries :: "string list \<Rightarrow> (string \<times> yval) list \<Rightarrow> (string \<times> yval) list" where
  "knownEntries [] svc = []"
| "knownEntries (f # fieldOrder) svc =
     (case map_of svc f of
        None \<Rightarrow> knownEntries fieldOrder svc
      | Some v \<Rightarrow> (f, v) # knownEntries fieldOrder (AList.delete f svc))"

definition arranged :: "string list \<Rightarrow> (string \<times> yval) list \<Rightarrow> (string \<times> yval) list" where
  "arranged fo svc = knownEntries fo svc @ filter (\<lambda>(k, v). k \<notin> set fo) svc"

text \<open>
  The fields of \<open>webService\<close> as a Go map, with \<open>range\<close> yielding them in the order in which
  the file declares them.
\<close>

definition misordered :: "(string \<times> yval) list" where
  "misordered =
     [(''image'', YStr ''nginx:latest''), (''container_name'', YStr ''web-server''),
      (''environment'', YSeq [YStr ''KEY=value''])]"

section \<open>Inputs of the fixer\<close>

text \<open>
  The scenario of the specification with the alphabetization of \<open>environment\<close> switched off
  (\<open>TestValidate_DisabledAlphabetization\<close>): the policy and the fields of the service.
\<close>

definition envOff :: config where
  "envOff = NewDefaultConfig\<lparr>Alphabetization := \<lparr> Environment = False, Volumes = True, Labels = True \<rparr>\<rparr>"

definition unsortedEnv :: "(string \<times> yval) list" where
  "unsortedEnv =
     [(''container_name'', YStr ''web-server''), (''image'', YStr ''nginx:latest''),
      (''environment'', YSeq [YStr ''ZZZ=v1'', YStr ''AAA=v2''])]"












section \<open>Properties of validateFieldOrder\<close>

lemma isInFieldOrder_set: "isInFieldOrder field fieldOrder \<longleftrightarrow> field \<in> set fieldOrder"
  by (induction fieldOrder) auto

lemma map_filter_upt_cong:
  assumes "\<And>j. a \<le> j \<Longrightarrow> j < b \<Longrightarrow> f j = g j \<and> P j = Q j"
  shows "map f (filter P [a ..< b]) = map g (filter Q [a ..< b])"
proof -
  have "filter P [a ..< b] = filter Q [a ..< b]"
    by (rule filter_cong) (auto simp: assms)
  moreover have "map f (filter Q [a ..< b]) = map g (filter Q [a ..< b])"
    by (rule map_cong) (auto simp: assms)
  ultimately show ?thesis by simp
qed

lemma checkOrder_indices:
  "checkOrder n s expected i actual =
     map (\<lambda>j. outOfOrder n s (actual ! (j - i)) (expected ! j))
       (filter (\<lambda>j. actual ! (j - i) \<noteq> expected ! j)
          [i ..< min (i + length actual) (length expected)])"
proof (induction actual arbitrary: i)
  case Nil
  then show ?case by simp
next
  case (Cons a rest)
  let ?m = "min (i + length (a # rest)) (length expected)"
  let ?f = "\<lambda>j. outOfOrder n s ((a # rest) ! (j - i)) (expected ! j)"
  let ?P = "\<lambda>j. (a # rest) ! (j - i) \<noteq> expected ! j"
  have m: "min (Suc i + length rest) (length expected) = ?m"
    by simp
  have tl: "checkOrder n s expected (Suc i) rest = map ?f (filter ?P [Suc i ..< ?m])"
    unfolding Cons.IH [of "Suc i"] m
    by (rule map_filter_upt_cong) (simp add: Suc_diff_le)
  show ?case
  proof (cases "i < length expected")
    case True
    then have upt: "[i ..< ?m] = i # [Suc i ..< ?m]"
      by (simp add: upt_conv_Cons)
    show ?thesis
      unfolding upt checkOrder.simps tl using True by simp
  next
    case False
    then have "[i ..< ?m] = []" and "[Suc i ..< ?m] = []"
      by simp_all
    with False show ?thesis
      unfolding checkOrder.simps tl by simp
  qed
qed

lemma checkStrict_filter:
  "checkStrict n fo fs = map (notAllowed n) (filter (\<lambda>f. f \<notin> set fo) fs)"
  by (induction fs) (auto simp: isInFieldOrder_set)


lemma validateFieldOrder_split:
  "validateFieldOrder name S fo cfg =
     map (\<lambda>i. outOfOrder name S (actualFields S fo ! i) (expectedFields S fo ! i))
       (filter (\<lambda>i. actualFields S fo ! i \<noteq> expectedFields S fo ! i)
          [0 ..< min (length (actualFields S fo)) (length (expectedFields S fo))])
     @ (if Strict cfg then map (notAllowed name) (filter (\<lambda>f. f \<notin> set fo) (FieldOrder S)) else [])"
  unfolding validateFieldOrder_def checkOrder_indices checkStrict_filter by simp

lemma webService_fields:
  "actualFields webService DefaultFieldOrder = [''image'', ''container_name'', ''environment'']"
  "expectedFields webService DefaultFieldOrder = [''container_name'', ''image'', ''environment'']"
  by (simp_all add: actualFields_def expectedFields_def webService_def DefaultFieldOrder_def)







section \<open>Properties of GetServices and Validate\<close>

lemma addServices_add:
  "addServices decode vals m = m ++ addServices decode vals Map.empty"
proof (induction vals arbitrary: m)
  case Nil
  then show ?case by simp
next
  case (Cons kv vals)
  obtain k v where kv: "kv = (k, v)" by (cases kv)
  show ?case
  proof (cases v)
    case (MappingNode svcMapping)
    obtain fo c where rf: "readFields decode svcMapping ([], Map.empty) = (fo, c)"
      by (cases "readFields decode svcMapping ([], Map.empty)")
    define s where "s = \<lparr> Name = kString k, Config = c, FieldOrder = fo, Line = kLine k, Column = kColumn k \<rparr>"
    have step: "addServices decode (kv # vals) m' = addServices decode vals (m'(kString k \<mapsto> s))" for m'
      by (simp add: kv MappingNode rf s_def)
    have "addServices decode (kv # vals) m = m(kString k \<mapsto> s) ++ addServices decode vals Map.empty"
      unfolding step by (rule Cons.IH)
    moreover have "addServices decode (kv # vals) Map.empty
        = [kString k \<mapsto> s] ++ addServices decode vals Map.empty"
      unfolding step by (rule Cons.IH)
    moreover have "m(kString k \<mapsto> s) = m ++ [kString k \<mapsto> s]"
      by simp
    ultimately show ?thesis
      by (simp only: map_add_assoc)
  next
    case (OtherNode t)
    have "addServices decode (kv # vals) m' = addServices decode vals m'" for m'
      by (simp add: kv OtherNode)
    then show ?thesis using Cons.IH [of m] by simp
  qed
qed

lemma addDocuments_step:
  "addDocuments decode (d # ds) m = addDocuments decode ds (m ++ documentServices decode d)"
proof -
  have sv: "addServices decode vals m = m ++ addServices decode vals Map.empty" for vals
    by (rule addServices_add)
  show ?thesis
    unfolding documentServices_def
    by (simp split: document.splits option.splits node.splits) (metis sv)
qed

lemma addDocuments_add:
  "addDocuments decode ds m = m ++ addDocuments decode ds Map.empty"
proof (induction ds arbitrary: m)
  case Nil
  then show ?case by simp
next
  case (Cons d ds)
  have "addDocuments decode (d # ds) m = (m ++ documentServices decode d) ++ addDocuments decode ds Map.empty"
    unfolding addDocuments_step by (rule Cons.IH)
  moreover have "addDocuments decode (d # ds) Map.empty
      = (Map.empty ++ documentServices decode d) ++ addDocuments decode ds Map.empty"
    unfolding addDocuments_step by (rule Cons.IH)
  ultimately show ?case by (simp only: map_add_assoc empty_map_add)
qed

lemma addDocuments_append:
  "addDocuments decode (ds @ ds') m = addDocuments decode ds' (addDocuments decode ds m)"
  by (induction ds arbitrary: m) (auto split: document.splits option.splits node.splits)

text \<open>
  Claim C9. \<open>GetServices\<close> exposes the services of all documents of a file as one map from
  names to services, and a service of a later document replaces a service of the same name
  of an earlier document: a name has the service that the later documents give it, and the
  service of the earlier documents when the later ones have none of that name.
\<close>

theorem GetServices_last_write_wins:
  "GetServices decode (cf\<lparr>Documents := earlier @ later\<rparr>) name =
     (case GetServices decode (cf\<lparr>Documents := later\<rparr>) name of
        Some service \<Rightarrow> Some service
      | None \<Rightarrow> GetServices decode (cf\<lparr>Documents := earlier\<rparr>) name)"
proof -
  have "GetServices decode (cf\<lparr>Documents := earlier @ later\<rparr>)
      = GetServices decode (cf\<lparr>Documents := earlier\<rparr>) ++ GetServices decode (cf\<lparr>Documents := later\<rparr>)"
    using addDocuments_add [of decode later "addDocuments decode earlier Map.empty"]
    by (simp add: GetServices_def addDocuments_append)
  then show ?thesis
    by (simp add: map_add_def)
qed

lemma twoDocuments_parts:
  "map_option (\<lambda>s. (Line s, Config s ''image''))
     (GetServices textOf (twoDocuments\<lparr>Documents := [secondDocument]\<rparr>) ''web'') = Some (8, Some (YStr ''caddy''))"
  "GetServices textOf (twoDocuments\<lparr>Documents := [secondDocument]\<rparr>) ''db'' = None"
  "map_option (\<lambda>s. (Line s, Config s ''image''))
     (GetServices textOf (twoDocuments\<lparr>Documents := [firstDocument]\<rparr>) ''db'') = Some (4, Some (YStr ''mysql''))"
  by (simp_all add: GetServices_def twoDocuments_def firstDocument_def secondDocument_def keyAt_def
        textOf_def)

theorem GetServices_last_write_wins_witness:
  "map_option (\<lambda>s. (Line s, Config s ''image'')) (GetServices textOf twoDocuments ''web'')
     = Some (8, Some (YStr ''caddy''))
   \<and> map_option (\<lambda>s. (Line s, Config s ''image'')) (GetServices textOf twoDocuments ''db'')
     = Some (4, Some (YStr ''mysql''))"
proof -
  have split: "twoDocuments = twoDocuments\<lparr>Documents := [firstDocument] @ [secondDocument]\<rparr>"
    by (simp add: twoDocuments_def)
  have web: "GetServices textOf twoDocuments ''web''
      = GetServices textOf (twoDocuments\<lparr>Documents := [secondDocument]\<rparr>) ''web''"
    using GetServices_last_write_wins [where decode = textOf and cf = twoDocuments
        and earlier = "[firstDocument]" and later = "[secondDocument]" and name = "''web''"]
      twoDocuments_parts(1)
    by (subst split) (auto split: option.splits)
  have db: "GetServices textOf twoDocuments ''db''
      = GetServices textOf (twoDocuments\<lparr>Documents := [firstDocument]\<rparr>) ''db''"
    using GetServices_last_write_wins [where decode = textOf and cf = twoDocuments
        and earlier = "[firstDocument]" and later = "[secondDocument]" and name = "''db''"]
      twoDocuments_parts(2)
    by (subst split) (auto split: option.splits)
  show ?thesis
    unfolding web db using twoDocuments_parts by simp
qed

lemma validateServices_keeps:
  "Violations result \<noteq> NilSlice \<Longrightarrow>
   Violations (validateServices cfg services names result) \<noteq> NilSlice
   \<and> Valid (validateServices cfg services names result) = Valid result"
proof (induction names arbitrary: result)
  case Nil
  then show ?case by simp
next
  case (Cons n names)
  show ?case
  proof (cases "services n")
    case None
    then show ?thesis using Cons by simp
  next
    case (Some service)
    from Cons.prems obtain vs where vs: "Violations result = Slice vs"
      by (cases "Violations result") auto
    show ?thesis
      using Some Cons.IH vs by (simp add: Let_def)
  qed
qed

text \<open>
  Claim C10. The result of \<open>Validate\<close> has a list of violations that is not nil, and its
  flag \<open>Valid\<close> is true exactly when that list is empty, whatever the order in which
  \<open>range\<close> yields the services.
\<close>

theorem Validate_valid_iff_no_violations:
  "Violations (Validate decode names file cfg) \<noteq> NilSlice
   \<and> (Valid (Validate decode names file cfg) \<longleftrightarrow> elems (Violations (Validate decode names file cfg)) = [])"
proof -
  let ?init = "\<lparr> File = Path file, Valid = True, Violations = Slice [] \<rparr>"
  let ?r = "validateServices cfg (GetServices decode file) names ?init"
  have "Violations ?r \<noteq> NilSlice \<and> Valid ?r = Valid ?init"
    by (rule validateServices_keeps) simp
  then show ?thesis
    by (auto simp: Validate_def Let_def)
qed

section \<open>Properties of validateAlphabetization\<close>

abbreviation (input) lowerLe :: "string \<Rightarrow> string \<Rightarrow> bool" where
  "lowerLe a b \<equiv> ToLower a \<le> ToLower b"

lemma swapPass_id:
  "\<forall>k \<in> set ks. lowerLe cur k \<Longrightarrow> swapPass cur ks = (cur, ks)"
  by (induction ks) (auto simp: not_less [symmetric])

lemma sortKeys_id:
  "sorted_wrt lowerLe ks \<Longrightarrow> sortKeys ks = ks"
  by (induction ks) (auto simp: swapPass_id)

lemma swapPass_least:
  "swapPass cur ks = (c, rest) \<Longrightarrow>
     (\<forall>k \<in> set rest. lowerLe c k) \<and> set (c # rest) = set (cur # ks)"
proof (induction ks arbitrary: cur c rest)
  case Nil
  then show ?case by simp
next
  case (Cons k ks)
  show ?case
  proof (cases "ToLower cur > ToLower k")
    case True
    then obtain r where r: "swapPass k ks = (c, r)" and rest: "rest = cur # r"
      using Cons.prems by (auto split: prod.splits)
    from Cons.IH [OF r] have le: "\<forall>x \<in> set r. lowerLe c x" and st: "set (c # r) = set (k # ks)"
      by simp_all
    have "c \<in> set (k # ks)" using st by auto
    then have "lowerLe c k"
      using le st by (cases "c = k") auto
    then have "lowerLe c cur" using True by simp
    with le st rest show ?thesis by auto
  next
    case False
    then obtain r where r: "swapPass cur ks = (c, r)" and rest: "rest = k # r"
      using Cons.prems by (auto split: prod.splits)
    from Cons.IH [OF r] have le: "\<forall>x \<in> set r. lowerLe c x" and st: "set (c # r) = set (cur # ks)"
      by simp_all
    have "lowerLe c cur"
      using le st by (cases "c = cur") auto
    then have "lowerLe c k" using False by simp
    with le st rest show ?thesis by auto
  qed
qed

lemma set_sortKeys: "set (sortKeys ks) = set ks"
proof (induction ks rule: sortKeys.induct)
  case 1
  then show ?case by simp
next
  case (2 k ks)
  obtain c rest where cr: "swapPass k ks = (c, rest)" by (cases "swapPass k ks")
  from 2 [OF cr [symmetric]] swapPass_least [OF cr] cr show ?case by simp
qed

lemma sorted_sortKeys: "sorted_wrt lowerLe (sortKeys ks)"
proof (induction ks rule: sortKeys.induct)
  case 1
  then show ?case by simp
next
  case (2 k ks)
  obtain c rest where cr: "swapPass k ks = (c, rest)" by (cases "swapPass k ks")
  from 2 [OF cr [symmetric]] swapPass_least [OF cr] cr show ?case
    by (simp add: set_sortKeys)
qed

lemma sortKeys_eq_iff: "ks = sortKeys ks \<longleftrightarrow> sorted_wrt lowerLe ks"
  using sortKeys_id [of ks] sorted_sortKeys [of ks] by auto

lemma sortedByKey_iff:
  "sortedByKey keyOf xs \<longleftrightarrow> sorted_wrt lowerLe (map keyOf xs)"
proof -
  have "sort_key (\<lambda>e. ToLower (keyOf e)) xs = xs \<longleftrightarrow> sorted (map (\<lambda>e. ToLower (keyOf e)) xs)"
    by (metis sorted_sort_key sort_key_id_if_sorted)
  then show ?thesis
    by (simp add: sortedByKey_def sorted_map sorted_wrt_map)
qed

lemma sortedByKey_short: "length xs < 2 \<Longrightarrow> sortedByKey keyOf xs"
  by (cases xs; cases "tl xs") (auto simp: sortedByKey_iff)

lemma isAlphabetized_iff: "isAlphabetized items keyOf \<longleftrightarrow> sortedByKey keyOf items"
  using sortedByKey_short [of items keyOf]
  by (auto simp: isAlphabetized_def Let_def sortKeys_eq_iff sortedByKey_iff)

lemma isMapAlphabetized_iff: "isMapAlphabetized m \<longleftrightarrow> sortedByKey fst m"
  using sortedByKey_short [of m fst]
  by (auto simp: isMapAlphabetized_def Let_def sortKeys_eq_iff sortedByKey_iff)

lemma checked_seq_or_map:
  "(case value of
      Some (YSeq items) \<Rightarrow> if \<not> isAlphabetized items keyOf then [x] else []
    | Some (YMap m) \<Rightarrow> if \<not> isMapAlphabetized m then [x] else []
    | _ \<Rightarrow> [])
   = (if unsorted keyOf True value then [x] else [])"
  by (simp add: unsorted_def isAlphabetized_iff isMapAlphabetized_iff
      split: option.splits yval.splits)

lemma checked_seq:
  "(case value of
      Some (YSeq items) \<Rightarrow> if \<not> isAlphabetized items keyOf then [x] else []
    | _ \<Rightarrow> [])
   = (if unsorted keyOf False value then [x] else [])"
  by (simp add: unsorted_def isAlphabetized_iff split: option.splits yval.splits)

lemma if_if_conj: "(if a then (if b then x else []) else []) = (if a \<and> b then x else [])"
  by simp

lemma validateAlphabetization_unsorted:
  "validateAlphabetization name S cfg =
     (if ShouldAlphabetize cfg ''environment'' \<and> unsorted extractEnvKey True (Config S ''environment'')
      then [notAlphabetized name S ''environment'' ''environment variables are not alphabetized'']
      else [])
     @ (if ShouldAlphabetize cfg ''volumes'' \<and> unsorted extractVolumeKey False (Config S ''volumes'')
        then [notAlphabetized name S ''volumes'' ''volumes are not alphabetized by source path'']
        else [])
     @ (if ShouldAlphabetize cfg ''labels'' \<and> unsorted extractLabelKey True (Config S ''labels'')
        then [notAlphabetized name S ''labels'' ''labels are not alphabetized'']
        else [])"
  unfolding validateAlphabetization_def checked_seq_or_map checked_seq if_if_conj
  by (rule refl)




section \<open>Properties of sortSlice\<close>

lemma mset_insertBack: "mset (insertBack lt x front) = add_mset x (mset front)"
  by (induction front) auto


lemma mset_insertLoop:
  "mset (foldl (\<lambda>front x. insertBack lt x front) front xs) = mset front + mset xs"
  by (induction xs arbitrary: front) (auto simp: mset_insertBack)

lemma mset_sortSlice: "mset (sortSlice lt xs) = mset xs"
  by (simp add: sortSlice_def mset_insertLoop)

lemma length_sortSlice: "length (sortSlice lt xs) = length xs"
  by (metis mset_sortSlice size_mset)








lemma sortSlice_short: "length xs < 2 \<Longrightarrow> sortSlice lt xs = xs"
  by (cases xs; cases "tl xs") (auto simp: sortSlice_def)


section \<open>Properties of alphabetizeField\<close>

lemma ifaceNeq_comparable: "comparable x \<Longrightarrow> ifaceNeq x y = Some (x \<noteq> y)"
  by (cases x; cases y) (simp_all add: ifaceNeq_def comparable_def)

lemma firstChange_comparable:
  "list_all comparable v \<Longrightarrow> length s = length v \<Longrightarrow> firstChange v s = Some (v \<noteq> s)"
proof (induction v s rule: firstChange.induct)
  case (3 x v y s)
  then show ?case by (cases "x = y") (auto simp: ifaceNeq_comparable)
qed simp_all

lemma alphabetizeSlice_comparable:
  assumes "list_all comparable v"
  shows "alphabetizeSlice keyOf v =
           Some (YSeq (sortSlice (lowerLt keyOf) v), sortSlice (lowerLt keyOf) v \<noteq> v)"
proof (cases "length v < 2")
  case True
  then show ?thesis by (simp add: alphabetizeSlice_def sortSlice_short)
next
  case False
  have "firstChange v (sortSlice (lowerLt keyOf) v) = Some (v \<noteq> sortSlice (lowerLt keyOf) v)"
    using assms by (rule firstChange_comparable) (simp add: length_sortSlice)
  with False show ?thesis
    by (cases "v = sortSlice (lowerLt keyOf) v") (auto simp: alphabetizeSlice_def Let_def)
qed







lemma alphabetizeField_off:
  "\<not> ShouldAlphabetize cfg k \<Longrightarrow> alphabetizeField k v cfg = Some (v, False)"
  by (simp add: alphabetizeField_def)



lemma alphabetizeField_comparable:
  assumes "ShouldAlphabetize cfg k \<longrightarrow> comparableEntries v"
  shows "alphabetizeField k v cfg \<noteq> None"
proof (cases "ShouldAlphabetize cfg k")
  case False
  then show ?thesis by (simp add: alphabetizeField_off)
next
  case True
  with assms show ?thesis
    by (cases v)
      (auto simp: alphabetizeField_def alphabetizeEnvironment_def alphabetizeVolumes_def
         alphabetizeLabels_def comparableEntries_def alphabetizeSlice_comparable)
qed




section \<open>The loops of fixService\<close>

lemma update_new: "k \<notin> fst ` set al \<Longrightarrow> AList.update k v al = al @ [(k, v)]"
  by (induction al) auto

lemma alphabetizeField_cases:
  obtains (panic) "alphabetizeField k v cfg = None"
  | (ok) "alphabetizeField k v cfg = Some (fixedValue cfg k v, wasFixed cfg k v)"
  by (cases "alphabetizeField k v cfg") (auto simp: fixedValue_def wasFixed_def)

lemma fixRemaining_char:
  assumes "distinct (map fst entries)" and "fst ` set entries \<inter> fst ` set (s_ordered st) = {}"
  shows "fixRemaining name cfg entries st =
     (if panics cfg entries then None
      else Some (st\<lparr> s_changes := s_changes st @ entryChanges name cfg entries,
                      s_fixed := s_fixed st \<or> anyFixed cfg entries,
                      s_ordered := s_ordered st @ map (fixedEntry cfg) entries \<rparr>))"
  using assms
proof (induction entries arbitrary: st)
  case Nil
  then show ?case by (simp add: panics_def entryChanges_def anyFixed_def)
next
  case (Cons e entries)
  obtain k v where e: "e = (k, v)" by (cases e)
  show ?case
  proof (cases k v cfg rule: alphabetizeField_cases)
    case panic
    then show ?thesis by (simp add: e panics_def)
  next
    case ok
    let ?st = "st\<lparr> s_changes := (if wasFixed cfg k v
                                    then s_changes st @ [alphabetizedChange name k]
                                    else s_changes st),
                    s_fixed := (if wasFixed cfg k v then True else s_fixed st),
                    s_ordered := AList.update k (fixedValue cfg k v) (s_ordered st) \<rparr>"
    have new: "AList.update k (fixedValue cfg k v) (s_ordered st)
             = s_ordered st @ [(k, fixedValue cfg k v)]"
      using Cons.prems(2) by (intro update_new) (auto simp: e)
    have step: "fixRemaining name cfg (e # entries) st = fixRemaining name cfg entries ?st"
      by (simp add: e ok)
    have d: "distinct (map fst entries)" using Cons.prems(1) by simp
    have i: "fst ` set entries \<inter> fst ` set (s_ordered ?st) = {}"
      using Cons.prems by (auto simp: new e)
    show ?thesis
      unfolding step Cons.IH [OF d i]
      by (simp add: new e ok panics_def entryChanges_def anyFixed_def fixedEntry_def)
  qed
qed

lemma delete_filter: "AList.delete f svc = filter (\<lambda>(k, v). k \<noteq> f) svc"
  by (induction svc) auto

lemma fixKnown_char:
  assumes "fst ` set (s_svc st) \<inter> fst ` set (s_ordered st) = {}"
  shows "fixKnown name cfg fo st =
     (if panics cfg (knownEntries fo (s_svc st)) then None
      else Some \<lparr> s_changes = s_changes st @ entryChanges name cfg (knownEntries fo (s_svc st)),
                  s_fixed = (s_fixed st \<or> anyFixed cfg (knownEntries fo (s_svc st))),
                  s_ordered = s_ordered st @ map (fixedEntry cfg) (knownEntries fo (s_svc st)),
                  s_svc = filter (\<lambda>(k, v). k \<notin> set fo) (s_svc st) \<rparr>)"
  using assms
proof (induction fo arbitrary: st)
  case Nil
  then show ?case by (simp add: panics_def entryChanges_def anyFixed_def)
next
  case (Cons f fo)
  show ?case
  proof (cases "map_of (s_svc st) f")
    case None
    then have "f \<notin> fst ` set (s_svc st)" by (simp add: map_of_eq_None_iff)
    then have "filter (\<lambda>(k, v). k \<notin> set (f # fo)) (s_svc st) = filter (\<lambda>(k, v). k \<notin> set fo) (s_svc st)"
      by (intro filter_cong) (auto simp: image_iff)
    with None Cons.IH [OF Cons.prems] show ?thesis by simp
  next
    case (Some v)
    then have mem: "f \<in> fst ` set (s_svc st)"
      by (metis map_of_eq_None_iff option.distinct(1))
    show ?thesis
    proof (cases f v cfg rule: alphabetizeField_cases)
      case panic
      with Some show ?thesis by (simp add: panics_def)
    next
      case ok
      let ?st = "\<lparr> s_changes = (if wasFixed cfg f v
                                    then s_changes st @ [alphabetizedChange name f]
                                    else s_changes st),
                    s_fixed = (if wasFixed cfg f v then True else s_fixed st),
                    s_ordered = AList.update f (fixedValue cfg f v) (s_ordered st),
                    s_svc = AList.delete f (s_svc st) \<rparr>"
      have new: "AList.update f (fixedValue cfg f v) (s_ordered st)
               = s_ordered st @ [(f, fixedValue cfg f v)]"
        using Cons.prems mem by (intro update_new) auto
      have step: "fixKnown name cfg (f # fo) st = fixKnown name cfg fo ?st"
        by (simp add: Some ok)
      have i: "fst ` set (s_svc ?st) \<inter> fst ` set (s_ordered ?st) = {}"
        using Cons.prems by (auto simp: new delete_filter)
      have flt: "filter (\<lambda>(k, v). k \<notin> set fo) (AList.delete f (s_svc st))
               = filter (\<lambda>(k, v). k \<notin> set (f # fo)) (s_svc st)"
        unfolding delete_filter filter_filter by (intro filter_cong) auto
      show ?thesis
        unfolding step Cons.IH [OF i]
        by (simp add: new Some ok panics_def entryChanges_def anyFixed_def fixedEntry_def flt
              del: set_simps)
    qed
  qed
qed


lemma getFieldIndex_absent: "field \<notin> set fo \<Longrightarrow> getFieldIndex field fo = -1"
  by (induction fo) (auto simp: Let_def)

lemma orderLoop_unknown: "set ks \<inter> set fo = {} \<Longrightarrow> orderLoop ks fo lastIndex = True"
  by (induction ks arbitrary: lastIndex) (auto simp: getFieldIndex_absent Let_def)

lemma isFieldOrderCorrect_rest:
  "isFieldOrderCorrect (filter (\<lambda>(k, v). k \<notin> set fo) svc) fo"
  unfolding isFieldOrderCorrect_def by (rule orderLoop_unknown [THEN iffD2, OF _ TrueI]) auto

lemma knownEntries_set:
  "distinct (map fst svc) \<Longrightarrow> set (knownEntries fo svc) = {(k, v) \<in> set svc. k \<in> set fo}"
proof (induction fo arbitrary: svc)
  case Nil
  then show ?case by simp
next
  case (Cons f fo)
  show ?case
  proof (cases "map_of svc f")
    case None
    then have "f \<notin> fst ` set svc" by (simp add: map_of_eq_None_iff)
    then have "{(k, v) \<in> set svc. k \<in> set (f # fo)} = {(k, v) \<in> set svc. k \<in> set fo}"
      by (auto simp: image_iff)
    with None Cons show ?thesis by simp
  next
    case (Some v)
    have d: "distinct (map fst (AList.delete f svc))"
      using Cons.prems by (simp add: distinct_delete)
    have mem: "(f, v) \<in> set svc" using Some by (rule map_of_SomeD)
    have uniq: "\<And>w. (f, w) \<in> set svc \<Longrightarrow> w = v"
      using Cons.prems mem by (meson eq_key_imp_eq_value)
    have "set (knownEntries (f # fo) svc) = insert (f, v) {(k, w) \<in> set (AList.delete f svc). k \<in> set fo}"
      using Some Cons.IH [OF d] by simp
    also have "\<dots> = {(k, w) \<in> set svc. k \<in> set (f # fo)}"
      using mem by (auto simp: delete_filter dest: uniq)
    finally show ?thesis .
  qed
qed

lemma knownEntries_keys_distinct: "distinct (map fst (knownEntries fo svc))"
proof (induction fo arbitrary: svc)
  case Nil
  then show ?case by simp
next
  case (Cons f fo)
  have sub: "fst ` set (knownEntries fo' svc') \<subseteq> fst ` set svc'" for fo' svc'
  proof (induction fo' arbitrary: svc')
    case Nil
    then show ?case by simp
  next
    case (Cons g fo')
    show ?case
    proof (cases "map_of svc' g")
      case None
      with Cons show ?thesis by simp
    next
      case (Some w)
      have "(g, w) \<in> set svc'" using Some by (rule map_of_SomeD)
      then have "g \<in> fst ` set svc'" by force
      moreover have "fst ` set (knownEntries fo' (AList.delete g svc')) \<subseteq> fst ` set svc'"
        using Cons [of "AList.delete g svc'"] by (force simp: delete_filter)
      ultimately show ?thesis using Some by simp
    qed
  qed
  show ?case
  proof (cases "map_of svc f")
    case None
    with Cons show ?thesis by simp
  next
    case (Some v)
    have "f \<notin> fst ` set (knownEntries fo (AList.delete f svc))"
      using sub [of fo "AList.delete f svc"] by (auto simp: delete_filter)
    with Some Cons show ?thesis by simp
  qed
qed

lemma firsts_Cons: "rev (remdups (rev (f # fo))) = f # filter (\<lambda>g. g \<noteq> f) (rev (remdups (rev fo)))"
proof -
  have "remdups (xs @ [f]) = remdups (filter (\<lambda>g. g \<noteq> f) xs) @ [f]" for xs
    by (induction xs) auto
  from this [of "rev fo"]
  have "remdups (rev fo @ [f]) = remdups (filter (\<lambda>g. g \<noteq> f) (rev fo)) @ [f]" .
  then show ?thesis
    by (simp add: remdups_filter rev_filter)
qed

lemma knownEntries_keys:
  "map fst (knownEntries fo svc) = filter (\<lambda>f. f \<in> fst ` set svc) (rev (remdups (rev fo)))"
proof (induction fo arbitrary: svc)
  case Nil
  then show ?case by simp
next
  case (Cons f fo)
  show ?case
  proof (cases "map_of svc f")
    case None
    then have nf: "f \<notin> fst ` set svc" by (simp add: map_of_eq_None_iff)
    then have "filter (\<lambda>g. g \<in> fst ` set svc) (filter (\<lambda>g. g \<noteq> f) (rev (remdups (rev fo))))
             = filter (\<lambda>g. g \<in> fst ` set svc) (rev (remdups (rev fo)))"
      unfolding filter_filter by (intro filter_cong) auto
    with None nf Cons.IH [of svc] show ?thesis
      by (simp only: firsts_Cons knownEntries.simps option.case filter.simps if_False)
  next
    case (Some v)
    then have mem: "f \<in> fst ` set svc"
      by (metis map_of_eq_None_iff option.distinct(1))
    have "filter (\<lambda>g. g \<in> fst ` set (AList.delete f svc)) (rev (remdups (rev fo)))
        = filter (\<lambda>g. g \<in> fst ` set svc) (filter (\<lambda>g. g \<noteq> f) (rev (remdups (rev fo))))"
      unfolding filter_filter by (intro filter_cong) (force simp: delete_filter)+
    with Some mem Cons.IH [of "AList.delete f svc"] show ?thesis
      by (simp only: firsts_Cons knownEntries.simps option.case filter.simps if_True list.map fst_conv)
  qed
qed

lemma knownEntries_keys_if_distinct:
  "distinct fo \<Longrightarrow> map fst (knownEntries fo svc) = filter (\<lambda>f. f \<in> fst ` set svc) fo"
  by (simp add: knownEntries_keys distinct_remdups_id)


lemma arranged_set: "distinct (map fst svc) \<Longrightarrow> set (arranged fo svc) = set svc"
  by (auto simp: arranged_def knownEntries_set)

lemma arranged_keys_distinct:
  assumes "distinct (map fst svc)"
  shows "distinct (map fst (arranged fo svc))"
proof -
  have "fst ` set (knownEntries fo svc) \<subseteq> set fo"
    using knownEntries_set [OF assms, of fo] by auto
  then have "fst ` set (knownEntries fo svc) \<inter> fst ` set (filter (\<lambda>(k, v). k \<notin> set fo) svc) = {}"
    by auto
  moreover have "distinct (map fst (filter (\<lambda>(k, v). k \<notin> set fo) svc))"
    using assms by (simp add: distinct_map_filter)
  ultimately show ?thesis
    by (simp add: arranged_def knownEntries_keys_distinct)
qed

lemma arranged_map_of: "distinct (map fst svc) \<Longrightarrow> map_of (arranged fo svc) = map_of svc"
  by (simp add: map_of_inject_set arranged_keys_distinct arranged_set)

lemma arranged_mset: "distinct (map fst svc) \<Longrightarrow> mset (arranged fo svc) = mset svc"
proof -
  assume d: "distinct (map fst svc)"
  then have "distinct svc" "distinct (arranged fo svc)"
    using arranged_keys_distinct [OF d, of fo] by (simp_all add: distinct_map)
  with arranged_set [OF d, of fo] show ?thesis
    by (simp add: set_eq_iff_mset_eq_distinct)
qed

lemma panics_set: "panics cfg xs \<longleftrightarrow> (\<exists>(k, v) \<in> set xs. alphabetizeField k v cfg = None)"
  by (simp add: panics_def list_ex_iff)

lemma anyFixed_set: "anyFixed cfg xs \<longleftrightarrow> (\<exists>(k, v) \<in> set xs. wasFixed cfg k v)"
  by (simp add: anyFixed_def list_ex_iff)

lemma panics_append: "panics cfg (xs @ ys) \<longleftrightarrow> panics cfg xs \<or> panics cfg ys"
  by (simp add: panics_def)

lemma anyFixed_append: "anyFixed cfg (xs @ ys) \<longleftrightarrow> anyFixed cfg xs \<or> anyFixed cfg ys"
  by (simp add: anyFixed_def)

lemma entryChanges_append:
  "entryChanges name cfg (xs @ ys) = entryChanges name cfg xs @ entryChanges name cfg ys"
  by (simp add: entryChanges_def)

lemma fixService_char:
  assumes "distinct (map fst svc)"
  shows "fixService name svc fo cfg =
     (if panics cfg svc then None
      else Some \<lparr> svcFixed = anyFixed cfg svc,
                  svcChanges = entryChanges name cfg (arranged fo svc),
                  svcOrdered = map (fixedEntry cfg) (arranged fo svc),
                  svcMap = copyBack (map (fixedEntry cfg) (arranged fo svc))
                             (filter (\<lambda>(k, v). k \<notin> set fo) svc) \<rparr>)"
proof -
  let ?st0 = "\<lparr> s_changes = [], s_fixed = False, s_ordered = [], s_svc = svc \<rparr>"
  let ?known = "knownEntries fo svc"
  let ?rest = "filter (\<lambda>(k, v). k \<notin> set fo) svc"
  let ?st1 = "\<lparr> s_changes = entryChanges name cfg ?known, s_fixed = anyFixed cfg ?known,
                 s_ordered = map (fixedEntry cfg) ?known, s_svc = ?rest \<rparr>"
  have l1: "fixKnown name cfg fo ?st0 = (if panics cfg ?known then None else Some ?st1)"
    using fixKnown_char [of ?st0 name cfg fo] by simp
  have "fst ` set ?known \<subseteq> set fo"
    using knownEntries_set [OF assms, of fo] by auto
  then have i: "fst ` set ?rest \<inter> fst ` set (s_ordered ?st1) = {}"
    by (auto simp: fixedEntry_def)
  have d: "distinct (map fst ?rest)"
    using assms by (simp add: distinct_map_filter)
  have l2: "fixRemaining name cfg ?rest ?st1 =
     (if panics cfg ?rest then None
      else Some \<lparr> s_changes = entryChanges name cfg (arranged fo svc),
                  s_fixed = anyFixed cfg (arranged fo svc),
                  s_ordered = map (fixedEntry cfg) (arranged fo svc), s_svc = ?rest \<rparr>)"
    unfolding fixRemaining_char [OF d i]
    by (simp add: arranged_def entryChanges_append anyFixed_append)
  have "panics cfg (arranged fo svc) = panics cfg svc"
    using arranged_set [OF assms, of fo] unfolding panics_set by simp
  then have p: "panics cfg svc \<longleftrightarrow> panics cfg ?known \<or> panics cfg ?rest"
    by (simp add: arranged_def panics_append)
  have a: "anyFixed cfg (arranged fo svc) = anyFixed cfg svc"
    using arranged_set [OF assms, of fo] unfolding anyFixed_set by simp
  show ?thesis
    unfolding fixService_def l1
    by (simp add: l2 p a isFieldOrderCorrect_rest)
qed

lemma map_of_fixedEntry:
  "map_of (map (fixedEntry cfg) xs) k = map_option (fixedValue cfg k) (map_of xs k)"
  by (induction xs) (auto simp: fixedEntry_def)





section \<open>Properties of fixService\<close>

lemma alphabetizedChange_inject [simp]:
  "alphabetizedChange name f = alphabetizedChange name g \<longleftrightarrow> f = g"
  by (simp add: alphabetizedChange_def quote_def)

lemma alphabetizedChange_not_reordered [simp]:
  "alphabetizedChange name f \<noteq> reorderedChange name"
  by (simp add: alphabetizedChange_def reorderedChange_def quote_def)

lemma entryChanges_set:
  "set (entryChanges name cfg xs) = {alphabetizedChange name k | k v. (k, v) \<in> set xs \<and> wasFixed cfg k v}"
  by (auto simp: entryChanges_def)

lemma fixService_never_reordered:
  assumes "distinct (map fst svc)" and "fixService name svc fo cfg = Some r"
  shows "reorderedChange name \<notin> set (svcChanges r) \<and> (svcFixed r \<longleftrightarrow> anyFixed cfg svc)"
  using assms(2) unfolding fixService_char [OF assms(1)]
  by (auto simp: entryChanges_set dest: alphabetizedChange_not_reordered [symmetric, THEN notE]
      split: if_splits)

lemma misordered_fix:
  "fixService ''web'' misordered DefaultFieldOrder NewDefaultConfig =
     Some \<lparr> svcFixed = False, svcChanges = [],
            svcOrdered = [(''container_name'', YStr ''web-server''), (''image'', YStr ''nginx:latest''),
                          (''environment'', YSeq [YStr ''KEY=value''])],
            svcMap = [(''container_name'', YStr ''web-server''), (''image'', YStr ''nginx:latest''),
                      (''environment'', YSeq [YStr ''KEY=value''])] \<rparr>"
  by code_simp

text \<open>
  Claim C4. \<open>fixService\<close> calls \<open>isFieldOrderCorrect\<close> on \<open>svc\<close> after its first loop has
  deleted every field of the canonical order from \<open>svc\<close>, so the check finds nothing out of
  order and no "reordered" record is ever written (\<open>fixService_never_reordered\<close>). The
  service \<open>webService\<close> declares \<open>image\<close> before \<open>container_name\<close>, and the validator
  reports both; \<open>fixService\<close> returns false and no change for its fields.
\<close>

theorem fixService_records_no_reorder:
  "Config webService = map_of misordered
   \<and> FieldOrder webService = map fst misordered
   \<and> validateFieldOrder ''web'' webService DefaultFieldOrder NewDefaultConfig =
       [outOfOrder ''web'' webService ''image'' ''container_name'',
        outOfOrder ''web'' webService ''container_name'' ''image'']
   \<and> fixService ''web'' misordered DefaultFieldOrder NewDefaultConfig =
       Some \<lparr> svcFixed = False, svcChanges = [],
              svcOrdered = [(''container_name'', YStr ''web-server''), (''image'', YStr ''nginx:latest''),
                            (''environment'', YSeq [YStr ''KEY=value''])],
              svcMap = [(''container_name'', YStr ''web-server''), (''image'', YStr ''nginx:latest''),
                        (''environment'', YSeq [YStr ''KEY=value''])] \<rparr>"
proof -
  have "[0 ..< 3] = [0, 1, 2::nat]" by (simp add: upt_rec)
  then have "validateFieldOrder ''web'' webService DefaultFieldOrder NewDefaultConfig =
       [outOfOrder ''web'' webService ''image'' ''container_name'',
        outOfOrder ''web'' webService ''container_name'' ''image'']"
    by (simp add: validateFieldOrder_split webService_fields NewDefaultConfig_def)
  moreover have "Config webService = map_of misordered"
    by (auto simp: webService_def misordered_def fun_eq_iff)
  moreover have "FieldOrder webService = map fst misordered"
    by (simp add: webService_def misordered_def)
  ultimately show ?thesis
    using misordered_fix by simp
qed

lemma validateAlphabetization_fields:
  "v \<in> set (validateAlphabetization name S cfg) \<Longrightarrow> ShouldAlphabetize cfg (vField v)"
  unfolding validateAlphabetization_unsorted
  by (auto simp: notAlphabetized_def split: if_splits)

lemma fixedValue_off: "\<not> ShouldAlphabetize cfg k \<Longrightarrow> fixedValue cfg k v = v"
  by (simp add: fixedValue_def alphabetizeField_off)

lemma wasFixed_off: "\<not> ShouldAlphabetize cfg k \<Longrightarrow> \<not> wasFixed cfg k v"
  by (simp add: wasFixed_def alphabetizeField_off)

lemma comparableFor_no_panic:
  assumes "comparableFor cfg svc"
  shows "\<not> panics cfg svc"
proof
  assume "panics cfg svc"
  then obtain k v where kv: "(k, v) \<in> set svc" and none: "alphabetizeField k v cfg = None"
    by (auto simp: panics_set)
  from assms kv have "ShouldAlphabetize cfg k \<longrightarrow> comparableEntries v"
    by (auto simp: comparableFor_def list_all_iff)
  from alphabetizeField_comparable [OF this] none show False by simp
qed

lemma fixService_ordered_lookup:
  assumes "distinct (map fst svc)" and "fixService name svc fo cfg = Some r"
  shows "map_of (svcOrdered r) k = map_option (fixedValue cfg k) (map_of svc k)"
  using assms(2) unfolding fixService_char [OF assms(1)]
  by (auto simp: map_of_fixedEntry arranged_map_of [OF assms(1)] split: if_splits)

text \<open>
  Claim C8. When the policy does not ask for the alphabetization of a field,
  \<open>validateAlphabetization\<close> returns no violation for the field, whatever its entries;
  \<open>alphabetizeField\<close> returns its value as it is, with the flag false; and a run of
  \<open>fixService\<close> writes no "alphabetized" record for the field and has the value of the
  field, as it was, in its corrected sequence. \<open>fixService\<close> returns whenever the entries of
  the sequences that the policy does want alphabetized are comparable.
\<close>

theorem disabled_alphabetization_untouched:
  assumes "\<not> ShouldAlphabetize cfg field"
  shows "(\<forall>v \<in> set (validateAlphabetization name S cfg). vField v \<noteq> field)
       \<and> alphabetizeField field value cfg = Some (value, False)
       \<and> (distinct (map fst svc) \<and> fixService name svc fo cfg = Some r \<longrightarrow>
            alphabetizedChange name field \<notin> set (svcChanges r)
            \<and> map_of (svcOrdered r) field = map_of svc field)
       \<and> (distinct (map fst svc) \<and> comparableFor cfg svc \<longrightarrow> fixService name svc fo cfg \<noteq> None)"
proof (intro conjI impI ballI)
  fix v assume "v \<in> set (validateAlphabetization name S cfg)"
  then show "vField v \<noteq> field"
    using assms by (auto dest: validateAlphabetization_fields)
next
  show "alphabetizeField field value cfg = Some (value, False)"
    using assms by (rule alphabetizeField_off)
next
  assume a: "distinct (map fst svc) \<and> fixService name svc fo cfg = Some r"
  then have "svcChanges r = entryChanges name cfg (arranged fo svc)"
    using fixService_char [of svc name fo cfg] by (auto split: if_splits)
  then show "alphabetizedChange name field \<notin> set (svcChanges r)"
    using assms by (auto simp: entryChanges_set wasFixed_off)
  have "map_of (svcOrdered r) field = map_option (fixedValue cfg field) (map_of svc field)"
    using a by (intro fixService_ordered_lookup) auto
  then show "map_of (svcOrdered r) field = map_of svc field"
    using assms by (cases "map_of svc field") (simp_all add: fixedValue_off)
next
  assume "distinct (map fst svc) \<and> comparableFor cfg svc"
  then show "fixService name svc fo cfg \<noteq> None"
    using fixService_char [of svc name fo cfg] by (simp add: comparableFor_no_panic)
qed

lemma unsortedEnv_fix:
  "fixService ''web'' unsortedEnv DefaultFieldOrder envOff =
     Some \<lparr> svcFixed = False, svcChanges = [], svcOrdered = unsortedEnv, svcMap = unsortedEnv \<rparr>"
  by code_simp

lemma unsortedEnv_valid:
  "validateAlphabetization ''web'' (declared ''web'' unsortedEnv) envOff = []"
  by (simp add: validateAlphabetization_unsorted ShouldAlphabetize_def envOff_def NewDefaultConfig_def
      declared_def unsortedEnv_def unsorted_def sortedByKey_def)

theorem disabled_alphabetization_untouched_witness:
  "\<not> ShouldAlphabetize envOff ''environment''
   \<and> validateFieldOrder ''web'' (declared ''web'' unsortedEnv) DefaultFieldOrder envOff = []
   \<and> validateAlphabetization ''web'' (declared ''web'' unsortedEnv) envOff = []
   \<and> alphabetizeField ''environment'' (YSeq [YStr ''ZZZ=v1'', YStr ''AAA=v2'']) envOff
       = Some (YSeq [YStr ''ZZZ=v1'', YStr ''AAA=v2''], False)
   \<and> fixService ''web'' unsortedEnv DefaultFieldOrder envOff =
       Some \<lparr> svcFixed = False, svcChanges = [], svcOrdered = unsortedEnv, svcMap = unsortedEnv \<rparr>
   \<and> map_of unsortedEnv ''environment'' = Some (YSeq [YStr ''ZZZ=v1'', YStr ''AAA=v2''])"
proof -
  have off: "\<not> ShouldAlphabetize envOff ''environment''"
    by (simp add: ShouldAlphabetize_def envOff_def NewDefaultConfig_def)
  have d: "distinct (map fst unsortedEnv)"
    by (simp add: unsortedEnv_def)
  have "[0 ..< 3] = [0, 1, 2::nat]" by (simp add: upt_rec)
  then have o: "validateFieldOrder ''web'' (declared ''web'' unsortedEnv) DefaultFieldOrder envOff = []"
    by (simp add: validateFieldOrder_split actualFields_def expectedFields_def declared_def
          unsortedEnv_def DefaultFieldOrder_def envOff_def NewDefaultConfig_def)
  from disabled_alphabetization_untouched [OF off, of "''web''" "declared ''web'' unsortedEnv"
      "YSeq [YStr ''ZZZ=v1'', YStr ''AAA=v2'']" unsortedEnv DefaultFieldOrder
      "\<lparr> svcFixed = False, svcChanges = [], svcOrdered = unsortedEnv, svcMap = unsortedEnv \<rparr>"]
  show ?thesis
    using off d o unsortedEnv_fix unsortedEnv_valid by (simp add: unsortedEnv_def)
qed




































end
